theory Spec2Isabelle
  imports Complex_Main "HOL-Library.Multiset"
begin

section \<open>Values of the document tree\<close>

text \<open>
  The document tree is typed \<^verbatim>\<open>any\<close> in the source. A node is either a
  primitive value or a Markdoc tag. Numbers are modelled as real numbers, with exact
  arithmetic: the code only compares them (\<^verbatim>\<open>=== 2\<close>, \<^verbatim>\<open>>=\<close>, the
  sign of a difference in the sort comparator) and adds one to a sum; NaN and the
  infinities are left out. Strings are lists of code units in the range U+0000..U+00FF.
\<close>

datatype Scalar = Undefined | Null | Bool bool | Num real | Str string

text \<open>JavaScript truthiness, as used by \<^verbatim>\<open>!node\<close> and \<^verbatim>\<open>attributes.id && ...\<close>.\<close>

fun truthy :: "Scalar \<Rightarrow> bool" where
  "truthy Undefined = False"
| "truthy Null = False"
| "truthy (Bool b) = b"
| "truthy (Num n) = (n \<noteq> 0)"
| "truthy (Str s) = (s \<noteq> [])"

text \<open>\<^verbatim>\<open>typeof v === 'string'\<close>.\<close>

fun is_string :: "Scalar \<Rightarrow> bool" where
  "is_string (Str s) = True"
| "is_string v = False"

text \<open>
  A tag carries a name, an attribute object and a children array (Markdoc's
  \<^verbatim>\<open>Tag\<close> class always has the array). Reading a property that an object does
  not have gives \<^verbatim>\<open>undefined\<close>.
\<close>

datatype Node = Leaf Scalar | Tag string "string \<rightharpoonup> Scalar" "Node list"

definition get_attr :: "(string \<rightharpoonup> Scalar) \<Rightarrow> string \<Rightarrow> Scalar" where
  "get_attr attributes key = (case attributes key of None \<Rightarrow> Undefined | Some v \<Rightarrow> v)"

section \<open>Heading extraction\<close>

text \<open>
  \<^verbatim>\<open>type MarkdocHeading = { title: string; id: string; level: number }\<close>.
  The object pushed is \<^verbatim>\<open>{ ...node.attributes, title }\<close>; of the spread
  attributes only \<^verbatim>\<open>id\<close> and \<^verbatim>\<open>level\<close> are ever read, with whatever
  value the attribute object holds for them.
\<close>

record MarkdocHeading =
  mh_title :: string
  mh_id :: Scalar
  mh_level :: Scalar

text \<open>
  \<^verbatim>\<open>collectMarkdocHeadings(node, sections)\<close>. The array \<^verbatim>\<open>sections\<close> is
  shared by all recursive calls and mutated by \<^verbatim>\<open>push\<close>; the model threads it.
  A primitive node leaves it unchanged: a falsy one by the early return, a truthy one
  because it has neither \<^verbatim>\<open>name\<close> nor \<^verbatim>\<open>children\<close>
  (\<^verbatim>\<open>node.children || []\<close> is empty).
\<close>

fun collectMarkdocHeadings :: "Node \<Rightarrow> MarkdocHeading list \<Rightarrow> MarkdocHeading list" where
  "collectMarkdocHeadings (Leaf v) sections = sections"
| "collectMarkdocHeadings (Tag name attributes children) sections =
     fold collectMarkdocHeadings children
       (if name = ''Heading'' then
          (case children of
             Leaf (Str title) # rest \<Rightarrow>
               sections @ [\<lparr>mh_title = title,
                             mh_id = get_attr attributes ''id'',
                             mh_level = get_attr attributes ''level''\<rparr>]
           | _ \<Rightarrow> sections)
        else sections)"

section \<open>Table of contents\<close>

text \<open>
  \<^verbatim>\<open>type TOCEntry = { title: string; slug: string; children?: TOC }\<close>. An entry
  built by spreading an undefined array slot has no title and no slug, so both fields
  hold a \<^typ>\<open>Scalar\<close>; every entry \<^verbatim>\<open>createTOC\<close> builds has a children array.
\<close>

datatype TOCEntry = TOCEntry (title: Scalar) (slug: Scalar) (children: "TOCEntry list")

type_synonym TOC = "TOCEntry list"

text \<open>
  Array access. \<^verbatim>\<open>toc[i]\<close> is \<^verbatim>\<open>undefined\<close> past the end. The assignment
  \<^verbatim>\<open>toc[i] = e\<close> overwrites a slot in range and extends the array by one when
  \<open>i\<close> is its length. An index beyond the length would leave holes; the loop of
  \<^verbatim>\<open>createTOC\<close> never writes there (lemma \<open>createTOC_fold_index\<close> below).
\<close>

definition array_get :: "'a list \<Rightarrow> nat \<Rightarrow> 'a option" where
  "array_get xs i = (if i < length xs then Some (xs ! i) else None)"

definition array_set :: "'a list \<Rightarrow> nat \<Rightarrow> 'a \<Rightarrow> 'a list" where
  "array_set xs i e = (if i < length xs then xs[i := e] else xs @ [e])"

text \<open>
  One iteration of the loop of \<^verbatim>\<open>createTOC\<close> on the state \<open>(toc, h2Index)\<close>.
  In the level-3 branch, \<^verbatim>\<open>{ ...toc[h2Index], children: [...] }\<close> copies title
  and slug of the slot (none for an undefined slot) and
  \<^verbatim>\<open>toc[h2Index]?.children || []\<close> is the slot's children or the empty array.
\<close>

fun createTOC_step :: "MarkdocHeading \<Rightarrow> TOC \<times> nat \<Rightarrow> TOC \<times> nat" where
  "createTOC_step heading (toc, h2Index) =
     (if mh_level heading = Num 2 then
        (let toc' = toc @ [TOCEntry (Str (mh_title heading)) (mh_id heading) []]
         in (toc', length toc' - 1))
      else if mh_level heading = Num 3 then
        (let entry = TOCEntry (Str (mh_title heading)) (mh_id heading) [] in
         case array_get toc h2Index of
           None \<Rightarrow> (array_set toc h2Index (TOCEntry Undefined Undefined ([] @ [entry])), h2Index)
         | Some e \<Rightarrow>
             (array_set toc h2Index (TOCEntry (title e) (slug e) (children e @ [entry])), h2Index))
      else (toc, h2Index))"

definition createTOC :: "Node \<Rightarrow> TOC" where
  "createTOC node =
     (let headings = collectMarkdocHeadings node []
      in fst (fold createTOC_step headings ([], 0)))"

text \<open>
  The nesting the specification describes, written from its words: the top-level
  entries are the level-2 headings in document order, and the children of an entry are
  the level-3 headings between its heading and the next level-2 heading. Headings of
  any other level give no entry.
\<close>

definition is_h2 :: "MarkdocHeading \<Rightarrow> bool" where
  "is_h2 h = (mh_level h = Num 2)"

definition is_h3 :: "MarkdocHeading \<Rightarrow> bool" where
  "is_h3 h = (mh_level h = Num 3)"

definition leaf_entry :: "MarkdocHeading \<Rightarrow> TOCEntry" where
  "leaf_entry h = TOCEntry (Str (mh_title h)) (mh_id h) []"

text \<open>The level-3 headings that come before the first level-2 heading.\<close>

definition leading_h3 :: "MarkdocHeading list \<Rightarrow> MarkdocHeading list" where
  "leading_h3 hs = filter is_h3 (takeWhile (\<lambda>h. \<not> is_h2 h) hs)"

fun sections_spec :: "MarkdocHeading list \<Rightarrow> TOC" where
  "sections_spec [] = []"
| "sections_spec (h # hs) =
     (if is_h2 h
      then TOCEntry (Str (mh_title h)) (mh_id h) (map leaf_entry (leading_h3 hs)) # sections_spec hs
      else sections_spec hs)"

section \<open>Heading ids\<close>

text \<open>
  The string operations \<^verbatim>\<open>generateID\<close> chains, on code units up to U+00FF:
  \<^verbatim>\<open>\s\<close> matches tab, line feed, vertical tab, form feed, carriage return, space
  and no-break space; \<^verbatim>\<open>toLowerCase\<close> maps A..Z and the capital letters
  U+00C0..U+00DE (but not the multiplication sign U+00D7) 32 positions up.
\<close>

definition is_whitespace :: "char \<Rightarrow> bool" where
  "is_whitespace c =
     (c = CHR 0x09 \<or> c = CHR 0x0A \<or> c = CHR 0x0B \<or> c = CHR 0x0C \<or> c = CHR 0x0D
        \<or> c = CHR 0x20 \<or> c = CHR 0xA0)"

definition char_toLowerCase :: "char \<Rightarrow> char" where
  "char_toLowerCase c =
     (let n = (of_char c :: nat) in
      if (65 \<le> n \<and> n \<le> 90) \<or> (192 \<le> n \<and> n \<le> 222 \<and> n \<noteq> 215)
      then char_of (n + 32) else c)"

definition toLowerCase :: "string \<Rightarrow> string" where
  "toLowerCase s = map char_toLowerCase s"

text \<open>\<^verbatim>\<open>.replace(/[?]/g, '')\<close>: every question mark is deleted.\<close>

definition replace_question_marks :: "string \<Rightarrow> string" where
  "replace_question_marks s = filter (\<lambda>c. c \<noteq> CHR ''?'') s"

text \<open>
  \<^verbatim>\<open>.replace(/\s+/g, '-')\<close>: scanning from the left, each match is a maximal
  run of whitespace (the quantifier is greedy) and is replaced by one hyphen.
\<close>

function replace_whitespace :: "string \<Rightarrow> string" where
  "replace_whitespace [] = []"
| "replace_whitespace (c # cs) =
     (if is_whitespace c then CHR ''-'' # replace_whitespace (dropWhile is_whitespace cs)
      else c # replace_whitespace cs)"
  by pat_completeness auto
termination
  by (relation "measure length") (auto simp: length_dropWhile_le less_Suc_eq_le)

text \<open>\<^verbatim>\<open>.join(sep)\<close> on an array of strings.\<close>

fun join :: "string \<Rightarrow> string list \<Rightarrow> string" where
  "join sep [] = []"
| "join sep [s] = s"
| "join sep (s # t # ss) = s @ sep @ join sep (t # ss)"

text \<open>\<^verbatim>\<open>children.filter((child) => typeof child === 'string')\<close>.\<close>

fun string_children :: "Node list \<Rightarrow> string list" where
  "string_children [] = []"
| "string_children (Leaf (Str s) # rest) = s # string_children rest"
| "string_children (child # rest) = string_children rest"

definition generateID :: "Node list \<Rightarrow> (string \<rightharpoonup> Scalar) \<Rightarrow> string" where
  "generateID children' attributes =
     (let id' = get_attr attributes ''id'' in
      if truthy id' \<and> is_string id' then (case id' of Str s \<Rightarrow> s | _ \<Rightarrow> [])
      else toLowerCase (replace_whitespace (replace_question_marks
             (join '' '' (string_children children')))))"

text \<open>
  The derived id as the specification words it, read one character at a time over the
  joined text: a question mark disappears, the first whitespace character of a run
  becomes a hyphen and the rest of the run disappears, every other character is
  lowercased. The flag says whether the last character kept was whitespace.
\<close>

fun slug_chars :: "bool \<Rightarrow> string \<Rightarrow> string" where
  "slug_chars in_run [] = []"
| "slug_chars in_run (c # cs) =
     (if c = CHR ''?'' then slug_chars in_run cs
      else if is_whitespace c then
        (if in_run then slug_chars True cs else CHR ''-'' # slug_chars True cs)
      else char_toLowerCase c # slug_chars False cs)"

definition slug_spec :: "Node list \<Rightarrow> string" where
  "slug_spec children' = slug_chars False (join '' '' (string_children children'))"

section \<open>Active-section tracker\<close>

text \<open>
  \<^verbatim>\<open>type ContentHeading = { id: string; top: number; level: number }\<close> and the
  two state cells of \<^verbatim>\<open>useTableOfContents\<close>. The initial current section is
  \<^verbatim>\<open>toc[0]?.slug\<close>.
\<close>

record ContentHeading =
  ch_id :: string
  ch_top :: real
  ch_level :: real

record tracker =
  currentSection :: Scalar
  headings :: "ContentHeading list"

definition useTableOfContents :: "TOC \<Rightarrow> tracker" where
  "useTableOfContents toc =
     \<lparr>currentSection = (case array_get toc 0 of None \<Rightarrow> Undefined | Some e \<Rightarrow> slug e),
      headings = []\<rparr>"

definition registerHeading :: "string \<Rightarrow> real \<Rightarrow> real \<Rightarrow> tracker \<Rightarrow> tracker" where
  "registerHeading id' top' level' st =
     st\<lparr>headings := filter (\<lambda>h. id' \<noteq> ch_id h) (headings st)
                        @ [\<lparr>ch_id = id', ch_top = top', ch_level = level'\<rparr>]\<rparr>"

definition unregisterHeading :: "string \<Rightarrow> tracker \<Rightarrow> tracker" where
  "unregisterHeading id' st = st\<lparr>headings := filter (\<lambda>h. id' \<noteq> ch_id h) (headings st)\<rparr>"

text \<open>
  \<^verbatim>\<open>onScroll\<close>. The window's scroll offset and the parsed
  \<^verbatim>\<open>--scroll-margin-top\<close> (zero when the style has no number) are parameters.
  \<^verbatim>\<open>Array.prototype.sort\<close> is stable, as \<^const>\<open>sort_key\<close> is. Reading
  \<^verbatim>\<open>sortedHeadings[0].id\<close> of an empty array throws.
\<close>

datatype error = TypeError

definition onScroll_step :: "real \<Rightarrow> ContentHeading \<Rightarrow> string \<Rightarrow> string" where
  "onScroll_step top' h current =
     (if top' \<ge> ch_top h \<and> (ch_level h = 2 \<or> ch_level h = 3) then ch_id h else current)"

definition onScroll :: "ContentHeading list \<Rightarrow> real \<Rightarrow> real \<Rightarrow> error + string" where
  "onScroll hs pageYOffset scrollMt =
     (let sortedHeadings = sort_key ch_top hs;
          top' = pageYOffset + scrollMt + 1
      in case sortedHeadings of
           [] \<Rightarrow> Inl TypeError
         | first # rest \<Rightarrow> Inr (fold (onScroll_step top') sortedHeadings (ch_id first)))"

text \<open>
  The effect of \<^verbatim>\<open>useTableOfContents\<close>: nothing happens when the table of
  contents or the set of registered headings is empty; otherwise \<^verbatim>\<open>onScroll\<close>
  runs (at once, and again at every scroll event) and stores its result.
\<close>

definition recompute :: "TOC \<Rightarrow> real \<Rightarrow> real \<Rightarrow> tracker \<Rightarrow> error + tracker" where
  "recompute toc pageYOffset scrollMt st =
     (if length toc = 0 \<or> length (headings st) = 0 then Inr st
      else case onScroll (headings st) pageYOffset scrollMt of
             Inl e \<Rightarrow> Inl e
           | Inr current \<Rightarrow> Inr (st\<lparr>currentSection := Str current\<rparr>))"

text \<open>
  The headings the scan of the specification retains: level 2 or 3, and a top that is
  at most the threshold.
\<close>

definition qualifies :: "real \<Rightarrow> ContentHeading \<Rightarrow> bool" where
  "qualifies thresholdY h = (ch_top h \<le> thresholdY \<and> (ch_level h = 2 \<or> ch_level h = 3))"

section \<open>Example inputs\<close>

text \<open>
  The tag \<^verbatim>\<open>headingNode.transform\<close> builds:
  \<^verbatim>\<open>new Tag('Heading', { ...attributes, id, level }, children)\<close>, here with one
  text child.
\<close>

definition heading_tag :: "string \<Rightarrow> real \<Rightarrow> string \<Rightarrow> Node" where
  "heading_tag id' level' title' =
     Tag ''Heading'' [''id'' \<mapsto> Str id', ''level'' \<mapsto> Num level'] [Leaf (Str title')]"

definition example_document :: Node where
  "example_document =
     Tag ''article'' Map.empty
       [heading_tag ''intro'' 2 ''Intro'',
        Tag ''p'' Map.empty [Leaf (Str ''Some text'')],
        heading_tag ''install'' 3 ''Install'',
        heading_tag ''usage'' 2 ''Usage'']"

definition example_leading :: Node where
  "example_leading =
     Tag ''article'' Map.empty
       [heading_tag ''install'' 3 ''Install'',
        heading_tag ''intro'' 2 ''Intro'']"

definition example_toc :: TOC where
  "example_toc =
     [TOCEntry (Str ''Intro'') (Str ''intro'') [TOCEntry (Str ''Install'') (Str ''install'') []],
      TOCEntry (Str ''Usage'') (Str ''usage'') []]"

definition example_headings :: "ContentHeading list" where
  "example_headings =
     [\<lparr>ch_id = ''intro'', ch_top = 0, ch_level = 2\<rparr>,
      \<lparr>ch_id = ''setup'', ch_top = 500, ch_level = 2\<rparr>,
      \<lparr>ch_id = ''usage'', ch_top = 1000, ch_level = 3\<rparr>]"

definition example_with_title :: "ContentHeading list" where
  "example_with_title =
     [\<lparr>ch_id = ''title'', ch_top = 0, ch_level = 1\<rparr>,
      \<lparr>ch_id = ''intro'', ch_top = 500, ch_level = 2\<rparr>]"

section \<open>Properties of the table-of-contents builder\<close>

lemma not_h2_and_h3: "is_h2 h \<Longrightarrow> \<not> is_h3 h"
  by (simp add: is_h2_def is_h3_def)

lemma leading_h3_Cons:
  "leading_h3 (h # hs) =
     (if is_h2 h then [] else if is_h3 h then h # leading_h3 hs else leading_h3 hs)"
  by (simp add: leading_h3_def)

text \<open>
  No level-3 heading comes before the first level-2 heading exactly when every level-3
  heading has a level-2 heading somewhere before it.
\<close>

lemma leading_h3_empty_iff:
  "leading_h3 hs = [] \<longleftrightarrow>
     (\<forall>i < length hs. is_h3 (hs ! i) \<longrightarrow> (\<exists>j < i. is_h2 (hs ! j)))"
proof (induction hs)
  case Nil
  show ?case by (simp add: leading_h3_def)
next
  case (Cons h hs)
  let ?P = "\<lambda>xs. \<forall>i < length xs. is_h3 (xs ! i) \<longrightarrow> (\<exists>j < i. is_h2 (xs ! j))"
  show ?case
  proof (cases "is_h2 h")
    case True
    have "?P (h # hs)"
    proof (intro allI impI)
      fix i assume "i < length (h # hs)" and h3: "is_h3 ((h # hs) ! i)"
      with True have "i \<noteq> 0" using not_h2_and_h3 [of h] by (cases i) auto
      then have "0 < i \<and> is_h2 ((h # hs) ! 0)" using True by simp
      then show "\<exists>j < i. is_h2 ((h # hs) ! j)" by blast
    qed
    then show ?thesis
      using True by (simp add: leading_h3_Cons)
  next
    case False
    have "?P (h # hs) \<longleftrightarrow> \<not> is_h3 h \<and> ?P hs"
    proof
      assume P: "?P (h # hs)"
      have "\<not> is_h3 h" using P [rule_format, of 0] by auto
      moreover have "?P hs"
      proof (intro allI impI)
        fix i assume "i < length hs" and "is_h3 (hs ! i)"
        then obtain j where j: "j < Suc i" "is_h2 ((h # hs) ! j)"
          using P [rule_format, of "Suc i"] by auto
        with False obtain k where "j = Suc k" by (cases j) auto
        with j show "\<exists>j < i. is_h2 (hs ! j)" by auto
      qed
      ultimately show "\<not> is_h3 h \<and> ?P hs" by simp
    next
      assume Q: "\<not> is_h3 h \<and> ?P hs"
      show "?P (h # hs)"
      proof (intro allI impI)
        fix i assume i: "i < length (h # hs)" and h3: "is_h3 ((h # hs) ! i)"
        with Q obtain k where k: "i = Suc k" by (cases i) auto
        with i h3 Q obtain j where "j < k" "is_h2 (hs ! j)" by auto
        then have "Suc j < i \<and> is_h2 ((h # hs) ! Suc j)" using k by simp
        then show "\<exists>j < i. is_h2 ((h # hs) ! j)" by blast
      qed
    qed
    then show ?thesis
      using Cons.IH False by (simp add: leading_h3_Cons)
  qed
qed

text \<open>
  The cursor of the loop is always a valid index, or the array is still empty and the
  cursor is 0: the assignment \<^verbatim>\<open>toc[h2Index] = ...\<close> overwrites a slot or
  appends the first one, and never leaves a hole.
\<close>

lemma createTOC_step_index:
  assumes "h2Index < length toc \<or> (toc = [] \<and> h2Index = 0)"
    and "createTOC_step h (toc, h2Index) = (toc', h2Index')"
  shows "h2Index' < length toc' \<or> (toc' = [] \<and> h2Index' = 0)"
  using assms by (auto simp: array_get_def array_set_def Let_def split: if_splits)

lemma createTOC_fold_index:
  assumes "h2Index < length toc \<or> (toc = [] \<and> h2Index = 0)"
    and "fold createTOC_step hs (toc, h2Index) = (toc', h2Index')"
  shows "h2Index' < length toc' \<or> (toc' = [] \<and> h2Index' = 0)"
  using assms
proof (induction hs arbitrary: toc h2Index)
  case Nil
  then show ?case by simp
next
  case (Cons h hs)
  obtain toc1 i1 where step: "createTOC_step h (toc, h2Index) = (toc1, i1)"
    by (cases "createTOC_step h (toc, h2Index)")
  have "i1 < length toc1 \<or> (toc1 = [] \<and> i1 = 0)"
    using Cons.prems(1) step by (rule createTOC_step_index)
  moreover have "fold createTOC_step hs (toc1, i1) = (toc', h2Index')"
    using Cons.prems(2) step by simp
  ultimately show ?case by (rule Cons.IH)
qed

text \<open>
  The loop started with its cursor on the last entry: the level-3 headings up to the
  next level-2 heading are appended to that entry's children, and the remaining
  headings are nested as the specification says.
\<close>

lemma createTOC_fold_last:
  "fst (fold createTOC_step hs (es @ [e], length es)) =
     es @ [TOCEntry (title e) (slug e) (children e @ map leaf_entry (leading_h3 hs))]
        @ sections_spec hs"
proof (induction hs arbitrary: es e)
  case Nil
  show ?case by (simp add: leading_h3_def)
next
  case (Cons h hs)
  show ?case
  proof (cases "is_h2 h")
    case True
    then have "fold createTOC_step (h # hs) (es @ [e], length es)
        = fold createTOC_step hs ((es @ [e]) @ [leaf_entry h], length (es @ [e]))"
      by (simp add: is_h2_def leaf_entry_def)
    then show ?thesis
      using Cons.IH [of "es @ [e]" "leaf_entry h"] True
      by (simp add: leading_h3_Cons leaf_entry_def)
  next
    case False
    show ?thesis
    proof (cases "is_h3 h")
      case True
      have "fold createTOC_step (h # hs) (es @ [e], length es)
          = fold createTOC_step hs
              (es @ [TOCEntry (title e) (slug e) (children e @ [leaf_entry h])], length es)"
        using True False
        by (simp add: is_h2_def is_h3_def leaf_entry_def array_get_def array_set_def)
      then show ?thesis
        using Cons.IH [of es "TOCEntry (title e) (slug e) (children e @ [leaf_entry h])"]
          True False
        by (simp add: leading_h3_Cons)
    next
      case other: False
      then show ?thesis
        using Cons.IH [of es e] False
        by (simp add: leading_h3_Cons is_h2_def is_h3_def)
    qed
  qed
qed

text \<open>
  The loop from its initial state: level-3 headings met while the array is empty go
  into a first entry that has neither title nor slug.
\<close>

lemma createTOC_fold_empty:
  "fst (fold createTOC_step hs ([], 0)) =
     (if leading_h3 hs = [] then []
      else [TOCEntry Undefined Undefined (map leaf_entry (leading_h3 hs))])
       @ sections_spec hs"
proof (induction hs)
  case Nil
  show ?case by (simp add: leading_h3_def)
next
  case (Cons h hs)
  show ?case
  proof (cases "is_h2 h")
    case True
    then have "fold createTOC_step (h # hs) ([], 0)
        = fold createTOC_step hs ([] @ [leaf_entry h], length ([] :: TOC))"
      by (simp add: is_h2_def leaf_entry_def)
    then show ?thesis
      using createTOC_fold_last [of hs "[]" "leaf_entry h"] True
      by (simp add: leading_h3_Cons leaf_entry_def)
  next
    case False
    show ?thesis
    proof (cases "is_h3 h")
      case True
      have "fold createTOC_step (h # hs) ([], 0)
          = fold createTOC_step hs
              ([] @ [TOCEntry Undefined Undefined [leaf_entry h]], length ([] :: TOC))"
        using True False
        by (simp add: is_h2_def is_h3_def leaf_entry_def array_get_def array_set_def)
      then show ?thesis
        using createTOC_fold_last [of hs "[]" "TOCEntry Undefined Undefined [leaf_entry h]"]
          True False
        by (simp add: leading_h3_Cons)
    next
      case other: False
      then show ?thesis
        using Cons.IH False
        by (simp add: leading_h3_Cons is_h2_def is_h3_def)
    qed
  qed
qed

lemma sections_spec_top:
  "map (\<lambda>e. (title e, slug e)) (sections_spec hs) =
     map (\<lambda>h. (Str (mh_title h), mh_id h)) (filter is_h2 hs)"
  by (induction hs) simp_all

lemma filter_h3_split:
  "filter is_h3 hs = leading_h3 hs @ filter is_h3 (dropWhile (\<lambda>h. \<not> is_h2 h) hs)"
proof -
  have "filter is_h3 hs =
      filter is_h3 (takeWhile (\<lambda>h. \<not> is_h2 h) hs @ dropWhile (\<lambda>h. \<not> is_h2 h) hs)"
    by simp
  then show ?thesis
    unfolding leading_h3_def filter_append .
qed

lemma sections_spec_children:
  "concat (map children (sections_spec hs)) =
     map leaf_entry (filter is_h3 (dropWhile (\<lambda>h. \<not> is_h2 h) hs))"
proof (induction hs)
  case Nil
  show ?case by simp
next
  case (Cons h hs)
  show ?case
  proof (cases "is_h2 h")
    case True
    then have "\<not> is_h3 h" by (rule not_h2_and_h3)
    then show ?thesis
      using True Cons.IH filter_h3_split [of hs] by simp
  next
    case False
    then show ?thesis using Cons.IH by simp
  qed
qed

lemma collectMarkdocHeadings_example_document:
  "collectMarkdocHeadings example_document [] =
     [\<lparr>mh_title = ''Intro'', mh_id = Str ''intro'', mh_level = Num 2\<rparr>,
      \<lparr>mh_title = ''Install'', mh_id = Str ''install'', mh_level = Num 3\<rparr>,
      \<lparr>mh_title = ''Usage'', mh_id = Str ''usage'', mh_level = Num 2\<rparr>]"
  by (simp add: example_document_def heading_tag_def get_attr_def)

lemma collectMarkdocHeadings_example_leading:
  "collectMarkdocHeadings example_leading [] =
     [\<lparr>mh_title = ''Install'', mh_id = Str ''install'', mh_level = Num 3\<rparr>,
      \<lparr>mh_title = ''Intro'', mh_id = Str ''intro'', mh_level = Num 2\<rparr>]"
  by (simp add: example_leading_def heading_tag_def get_attr_def)

text \<open>
  Claim C1, as the code has it. When the extracted heading sequence has a level-3
  heading before its first level-2 heading, \<^verbatim>\<open>createTOC\<close> does not drop it: the
  table of contents starts with an entry that has no title and no slug, whose children
  are the level-3 headings that precede the first level-2 heading, in document order;
  the level-2 headings follow with their own children.
\<close>

theorem createTOC_leading_level3:
  assumes "hs = collectMarkdocHeadings node []"
    and "leading_h3 hs \<noteq> []"
  shows "createTOC node =
     TOCEntry Undefined Undefined (map leaf_entry (leading_h3 hs)) # sections_spec hs"
  using assms by (simp add: createTOC_def Let_def createTOC_fold_empty)

theorem createTOC_leading_level3_witness:
  "leading_h3 (collectMarkdocHeadings example_leading []) \<noteq> []
   \<and> createTOC example_leading =
       [TOCEntry Undefined Undefined [TOCEntry (Str ''Install'') (Str ''install'') []],
        TOCEntry (Str ''Intro'') (Str ''intro'') []]"
proof -
  have lead: "leading_h3 (collectMarkdocHeadings example_leading []) \<noteq> []"
    by (simp add: collectMarkdocHeadings_example_leading leading_h3_def is_h2_def is_h3_def)
  show ?thesis
    using lead createTOC_leading_level3 [OF refl lead]
    by (simp add: collectMarkdocHeadings_example_leading leading_h3_def is_h2_def is_h3_def
        leaf_entry_def)
qed

text \<open>
  The claim as written fails: the level-3 heading \<open>Install\<close> comes before any level-2
  heading, and it is in the returned table of contents, as the child of the first entry.
\<close>

theorem createTOC_level3_not_dropped:
  "collectMarkdocHeadings example_leading [] =
     [\<lparr>mh_title = ''Install'', mh_id = Str ''install'', mh_level = Num 3\<rparr>,
      \<lparr>mh_title = ''Intro'', mh_id = Str ''intro'', mh_level = Num 2\<rparr>]
   \<and> TOCEntry (Str ''Install'') (Str ''install'') []
       \<in> set (children (hd (createTOC example_leading)))"
  by (simp add: createTOC_def collectMarkdocHeadings_example_leading array_get_def
      array_set_def)

text \<open>
  Claim C4. When every level-3 heading of the extracted sequence has a level-2 heading
  before it, the table of contents is the nesting of the specification: its top-level
  entries are the level-2 headings in document order, the children of an entry are the
  level-3 headings up to the next level-2 heading, in document order, and no other
  heading gives an entry. All the children together are the level-3 headings of the
  document, in order.
\<close>

theorem createTOC_sections:
  assumes "hs = collectMarkdocHeadings node []"
    and "\<forall>i < length hs. is_h3 (hs ! i) \<longrightarrow> (\<exists>j < i. is_h2 (hs ! j))"
  shows "createTOC node = sections_spec hs
     \<and> map (\<lambda>e. (title e, slug e)) (createTOC node) =
         map (\<lambda>h. (Str (mh_title h), mh_id h)) (filter is_h2 hs)
     \<and> concat (map children (createTOC node)) = map leaf_entry (filter is_h3 hs)"
proof -
  have lead: "leading_h3 hs = []"
    using assms(2) by (simp add: leading_h3_empty_iff)
  then have toc: "createTOC node = sections_spec hs"
    using assms(1) by (simp add: createTOC_def Let_def createTOC_fold_empty)
  have "filter is_h3 hs = filter is_h3 (dropWhile (\<lambda>h. \<not> is_h2 h) hs)"
    using filter_h3_split [of hs] lead by simp
  then show ?thesis
    by (simp add: toc sections_spec_top sections_spec_children)
qed

theorem createTOC_sections_witness:
  "leading_h3 (collectMarkdocHeadings example_document []) = []
   \<and> createTOC example_document =
       [TOCEntry (Str ''Intro'') (Str ''intro'') [TOCEntry (Str ''Install'') (Str ''install'') []],
        TOCEntry (Str ''Usage'') (Str ''usage'') []]"
proof -
  let ?hs = "collectMarkdocHeadings example_document []"
  have lead: "leading_h3 ?hs = []"
    by (simp add: collectMarkdocHeadings_example_document leading_h3_def is_h2_def)
  then have ordered: "\<forall>i < length ?hs. is_h3 (?hs ! i) \<longrightarrow> (\<exists>j < i. is_h2 (?hs ! j))"
    by (simp only: leading_h3_empty_iff)
  have "createTOC example_document = sections_spec ?hs"
    using createTOC_sections [OF refl ordered] by simp
  then show ?thesis
    using lead
    by (simp add: collectMarkdocHeadings_example_document leading_h3_def is_h2_def is_h3_def
        leaf_entry_def)
qed

text \<open>
  Claim C9. For a missing root (\<^verbatim>\<open>undefined\<close>, \<^verbatim>\<open>null\<close> or any other falsy
  value) extraction gives no heading and \<^verbatim>\<open>createTOC\<close> gives the empty table of
  contents; the tracker over it starts with no current section and no heading, and its
  recomputation leaves every state as it is. No recomputation, over any table of contents
  and any state, ends in an error.
\<close>

theorem missing_root_empty:
  assumes "\<not> truthy v"
  shows "collectMarkdocHeadings (Leaf v) [] = []
     \<and> createTOC (Leaf v) = []
     \<and> useTableOfContents (createTOC (Leaf v)) = \<lparr>currentSection = Undefined, headings = []\<rparr>
     \<and> recompute (createTOC (Leaf v)) pageYOffset scrollMt st = Inr st
     \<and> (\<exists>st'. recompute toc pageYOffset scrollMt st = Inr st')"
proof -
  have "\<exists>st'. recompute toc pageYOffset scrollMt st = Inr st'"
  proof (cases "sort_key ch_top (headings st)")
    case Nil
    then have "set (headings st) = {}" by (metis set_sort set_empty)
    then show ?thesis by (simp add: recompute_def)
  next
    case (Cons first rest)
    then show ?thesis by (simp add: recompute_def onScroll_def Let_def)
  qed
  then show ?thesis
    by (simp add: createTOC_def Let_def useTableOfContents_def array_get_def recompute_def)
qed

theorem missing_root_empty_witness:
  "\<not> truthy Undefined \<and> \<not> truthy Null
   \<and> collectMarkdocHeadings (Leaf Undefined) [] = [] \<and> createTOC (Leaf Undefined) = []
   \<and> collectMarkdocHeadings (Leaf Null) [] = [] \<and> createTOC (Leaf Null) = []"
  using missing_root_empty [of Undefined] missing_root_empty [of Null] by simp

section \<open>Properties of heading ids\<close>

lemma char_toLowerCase_hyphen: "char_toLowerCase (CHR ''-'') = CHR ''-''"
  by (simp add: char_toLowerCase_def)

text \<open>
  The three passes of \<^verbatim>\<open>generateID\<close> over the joined text give what the
  character-wise reading gives, whether or not the text is entered inside a whitespace
  run.
\<close>

lemma slug_chars_pipeline:
  "toLowerCase (replace_whitespace (replace_question_marks s)) = slug_chars False s
   \<and> toLowerCase (replace_whitespace (dropWhile is_whitespace (replace_question_marks s)))
       = slug_chars True s"
proof (induction s)
  case Nil
  show ?case by (simp add: toLowerCase_def replace_question_marks_def)
next
  case (Cons c s)
  show ?case
  proof (cases "c = CHR ''?''")
    case True
    then show ?thesis using Cons.IH by (simp add: replace_question_marks_def)
  next
    case False
    then have rq: "replace_question_marks (c # s) = c # replace_question_marks s"
      by (simp add: replace_question_marks_def)
    show ?thesis
    proof (cases "is_whitespace c")
      case True
      then show ?thesis
        using Cons.IH False
        by (simp add: rq toLowerCase_def char_toLowerCase_hyphen)
    next
      case ws: False
      then show ?thesis
        using Cons.IH False
        by (simp add: rq toLowerCase_def)
    qed
  qed
qed

lemma generateID_derived:
  assumes "\<not> (truthy (get_attr attributes ''id'') \<and> is_string (get_attr attributes ''id''))"
  shows "generateID children' attributes =
     toLowerCase (replace_whitespace (replace_question_marks
       (join '' '' (string_children children'))))"
  using assms by (auto simp: generateID_def Let_def)

lemma generateID_explicit:
  assumes "get_attr attributes ''id'' = Str s" and "s \<noteq> []"
  shows "generateID children' attributes = s"
  using assms by (simp add: generateID_def Let_def)

text \<open>
  Claim C5. \<^verbatim>\<open>generateID\<close> is a function of its arguments, and of them only the
  \<^verbatim>\<open>id\<close> attribute and the string children matter. A non-empty string id is
  returned as it is, whatever the children. When the id is not a string, the result is
  the string children joined by single spaces, with question marks removed, every run
  of whitespace replaced by one hyphen, and lowercased.
\<close>

theorem generateID_explicit_or_slug:
  "(get_attr attributes ''id'' = Str s \<and> s \<noteq> [] \<longrightarrow> generateID children' attributes = s)
   \<and> (\<not> is_string (get_attr attributes ''id'')
        \<longrightarrow> generateID children' attributes = slug_spec children')
   \<and> (get_attr attributes ''id'' = get_attr attributes2 ''id''
        \<and> string_children children' = string_children children2
      \<longrightarrow> generateID children' attributes = generateID children2 attributes2)"
proof (intro conjI impI)
  assume "get_attr attributes ''id'' = Str s \<and> s \<noteq> []"
  then show "generateID children' attributes = s"
    by (simp add: generateID_explicit)
next
  assume "\<not> is_string (get_attr attributes ''id'')"
  then show "generateID children' attributes = slug_spec children'"
    by (simp add: generateID_derived slug_spec_def slug_chars_pipeline)
next
  assume "get_attr attributes ''id'' = get_attr attributes2 ''id''
        \<and> string_children children' = string_children children2"
  then have "get_attr attributes ''id'' = get_attr attributes2 ''id''"
    and "string_children children' = string_children children2"
    by simp_all
  then show "generateID children' attributes = generateID children2 attributes2"
    by (simp only: generateID_def)
qed

theorem generateID_explicit_or_slug_witness:
  "generateID [Leaf (Str ''Anything else'')] [''id'' \<mapsto> Str ''foo''] = ''foo''
   \<and> generateID [Leaf (Str ''What is  This?''), Tag ''em'' Map.empty [], Leaf (Str ''Really'')]
        Map.empty = ''what-is-this-really''"
proof -
  have id: "get_attr [''id'' \<mapsto> Str ''foo''] ''id'' = Str ''foo'' \<and> ''foo'' \<noteq> []"
    by (simp add: get_attr_def)
  have none: "\<not> is_string (get_attr Map.empty ''id'')"
    by (simp add: get_attr_def)
  have slug: "slug_spec [Leaf (Str ''What is  This?''), Tag ''em'' Map.empty [],
      Leaf (Str ''Really'')] = ''what-is-this-really''"
    by code_simp
  show ?thesis
    using id none slug
      generateID_explicit_or_slug [of "[''id'' \<mapsto> Str ''foo'']" "''foo''"
        "[Leaf (Str ''Anything else'')]"]
      generateID_explicit_or_slug [of Map.empty "[]"
        "[Leaf (Str ''What is  This?''), Tag ''em'' Map.empty [], Leaf (Str ''Really'')]"]
    by simp
qed

text \<open>
  Claim C10, as the code has it. When the \<^verbatim>\<open>id\<close> attribute is the empty string or
  is not a string, \<^verbatim>\<open>generateID\<close> ignores it: the result is the id derived from
  the string children, the same as with no attribute at all. The result differs from
  the attribute, except that an empty-string id and an empty derived id coincide.
\<close>

theorem generateID_ignores_empty_id:
  assumes "get_attr attributes ''id'' = Str [] \<or> \<not> is_string (get_attr attributes ''id'')"
  shows "generateID children' attributes =
       toLowerCase (replace_whitespace (replace_question_marks
         (join '' '' (string_children children'))))
     \<and> generateID children' attributes = generateID children' Map.empty
     \<and> (Str (generateID children' attributes) = get_attr attributes ''id''
          \<longleftrightarrow> get_attr attributes ''id'' = Str [] \<and> generateID children' attributes = [])"
proof -
  have n: "\<not> (truthy (get_attr attributes ''id'') \<and> is_string (get_attr attributes ''id''))"
    using assms by auto
  have e: "\<not> (truthy (get_attr Map.empty ''id'') \<and> is_string (get_attr Map.empty ''id''))"
    by (simp add: get_attr_def)
  have "Str (generateID children' attributes) = get_attr attributes ''id''
          \<longleftrightarrow> get_attr attributes ''id'' = Str [] \<and> generateID children' attributes = []"
    using assms by (cases "get_attr attributes ''id''") auto
  then show ?thesis
    using generateID_derived [OF n, of children'] generateID_derived [OF e, of children']
    by simp
qed

theorem generateID_ignores_empty_id_witness:
  "get_attr [''id'' \<mapsto> Str []] ''id'' = Str []
   \<and> generateID [Leaf (Str ''Getting Started'')] [''id'' \<mapsto> Str []] = ''getting-started''
   \<and> generateID [Leaf (Str ''Getting Started'')] [''id'' \<mapsto> Num 7] = ''getting-started''"
proof -
  have a: "get_attr [''id'' \<mapsto> Str []] ''id'' = Str []"
    by (simp add: get_attr_def)
  have b: "\<not> is_string (get_attr [''id'' \<mapsto> Num 7] ''id'')"
    by (simp add: get_attr_def)
  have slug: "generateID [Leaf (Str ''Getting Started'')] Map.empty = ''getting-started''"
    by code_simp
  have e1: "generateID [Leaf (Str ''Getting Started'')] [''id'' \<mapsto> Str []] =
      generateID [Leaf (Str ''Getting Started'')] Map.empty"
    using a
      generateID_ignores_empty_id [of "[''id'' \<mapsto> Str []]" "[Leaf (Str ''Getting Started'')]"]
    by blast
  have e2: "generateID [Leaf (Str ''Getting Started'')] [''id'' \<mapsto> Num 7] =
      generateID [Leaf (Str ''Getting Started'')] Map.empty"
    using b
      generateID_ignores_empty_id [of "[''id'' \<mapsto> Num 7]" "[Leaf (Str ''Getting Started'')]"]
    by blast
  show ?thesis
    using a by (simp only: e1 e2 slug simp_thms)
qed

text \<open>
  The claim as written fails where the derived id is empty too: with an empty-string id
  and no text among the children, the string returned is that id.
\<close>

theorem generateID_empty_id_empty_slug:
  "get_attr [''id'' \<mapsto> Str []] ''id'' = Str []
   \<and> Str (generateID [] [''id'' \<mapsto> Str []]) = get_attr [''id'' \<mapsto> Str []] ''id''"
  by (simp add: generateID_def get_attr_def toLowerCase_def replace_question_marks_def)

section \<open>Properties of the tracker\<close>

lemma fold_onScroll_step:
  "fold (onScroll_step t) xs current =
     (if filter (qualifies t) xs = [] then current
      else ch_id (last (filter (qualifies t) xs)))"
  by (induction xs arbitrary: current) (auto simp: onScroll_step_def qualifies_def)

lemma onScroll_empty: "onScroll [] pageYOffset scrollMt = Inl TypeError"
  by (simp add: onScroll_def)

text \<open>
  What \<^verbatim>\<open>onScroll\<close> computes on a non-empty set: the last qualifying heading in
  sorted order, or the first heading in sorted order when none qualifies.
\<close>

lemma onScroll_nonempty:
  assumes "hs \<noteq> []"
  shows "onScroll hs pageYOffset scrollMt =
     Inr (if filter (qualifies (pageYOffset + scrollMt + 1)) (sort_key ch_top hs) = []
          then ch_id (hd (sort_key ch_top hs))
          else ch_id (last (filter (qualifies (pageYOffset + scrollMt + 1))
                 (sort_key ch_top hs))))"
proof -
  have "set (sort_key ch_top hs) \<noteq> {}" using assms by simp
  then obtain first rest where srt: "sort_key ch_top hs = first # rest"
    by (cases "sort_key ch_top hs") auto
  have "hd (sort_key ch_top hs) = first" using srt by simp
  then show ?thesis
    unfolding onScroll_def Let_def fold_onScroll_step
    by (simp add: srt)
qed

lemma onScroll_id_registered:
  assumes "onScroll hs pageYOffset scrollMt = Inr current"
  shows "current \<in> ch_id ` set hs"
proof (cases "hs = []")
  case True
  with assms show ?thesis by (simp add: onScroll_empty)
next
  case False
  let ?srt = "sort_key ch_top hs"
  let ?qs = "filter (qualifies (pageYOffset + scrollMt + 1)) ?srt"
  have ne: "?srt \<noteq> []" using False by (metis set_sort set_empty)
  show ?thesis
  proof (cases "?qs = []")
    case True
    then have "current = ch_id (hd ?srt)"
      using assms onScroll_nonempty [OF False, of pageYOffset scrollMt] by simp
    moreover have "hd ?srt \<in> set hs" using hd_in_set [OF ne] by simp
    ultimately show ?thesis by blast
  next
    case qs: False
    then have "current = ch_id (last ?qs)"
      using assms onScroll_nonempty [OF False, of pageYOffset scrollMt] by simp
    moreover have "last ?qs \<in> set ?qs" using qs by (rule last_in_set)
    then have "last ?qs \<in> set hs" by simp
    ultimately show ?thesis by blast
  qed
qed

lemma onScroll_qualifying:
  assumes "h \<in> set hs" and "qualifies (pageYOffset + scrollMt + 1) h"
  shows "\<exists>h'\<in>set hs. qualifies (pageYOffset + scrollMt + 1) h'
           \<and> onScroll hs pageYOffset scrollMt = Inr (ch_id h')"
proof -
  let ?t = "pageYOffset + scrollMt + 1"
  let ?qs = "filter (qualifies ?t) (sort_key ch_top hs)"
  have ne: "hs \<noteq> []" using assms by auto
  have qs: "?qs \<noteq> []" using assms by (auto simp: filter_empty_conv)
  then have "last ?qs \<in> set ?qs" by (rule last_in_set)
  then have "last ?qs \<in> set hs \<and> qualifies ?t (last ?qs)" by simp
  moreover have "onScroll hs pageYOffset scrollMt = Inr (ch_id (last ?qs))"
    using onScroll_nonempty [OF ne, of pageYOffset scrollMt] qs by simp
  ultimately show ?thesis by blast
qed

lemma onScroll_without_level1:
  assumes "h \<in> set hs" and "qualifies (pageYOffset + scrollMt + 1) h"
  shows "onScroll (filter (\<lambda>h. ch_level h \<noteq> 1) hs) pageYOffset scrollMt =
     onScroll hs pageYOffset scrollMt"
proof -
  let ?t = "pageYOffset + scrollMt + 1"
  let ?P = "\<lambda>h. ch_level h \<noteq> 1"
  have ne: "hs \<noteq> []" using assms by auto
  have "?P h" using assms by (auto simp: qualifies_def)
  then have ne': "filter ?P hs \<noteq> []" using assms by (auto simp: filter_empty_conv)
  have srt: "sort_key ch_top (filter ?P hs) = filter ?P (sort_key ch_top hs)"
    by (simp add: filter_sort)
  have "filter (qualifies ?t) (filter ?P (sort_key ch_top hs)) =
      filter (qualifies ?t) (sort_key ch_top hs)"
    by (auto simp: qualifies_def intro: filter_cong)
  moreover have "filter (qualifies ?t) (sort_key ch_top hs) \<noteq> []"
    using assms by (auto simp: filter_empty_conv)
  ultimately show ?thesis
    using onScroll_nonempty [OF ne, of pageYOffset scrollMt]
      onScroll_nonempty [OF ne', of pageYOffset scrollMt]
    by (simp add: srt)
qed

lemma onScroll_fallback:
  assumes "hs \<noteq> []" and "\<forall>h\<in>set hs. \<not> qualifies (pageYOffset + scrollMt + 1) h"
  shows "onScroll hs pageYOffset scrollMt = Inr (ch_id (hd (sort_key ch_top hs)))"
  using onScroll_nonempty [OF assms(1), of pageYOffset scrollMt] assms(2)
  by (simp add: filter_empty_conv)

text \<open>
  Claim C2, as the code has it. Over a non-empty set of registered headings: when some
  heading of level 2 or 3 lies at or above the threshold, the active section is the id
  of such a heading, and it is the same with all level-1 headings removed; when none
  does, the active section is the id of the first heading in sorted order, whatever its
  level.
\<close>

theorem onScroll_level_selection:
  assumes "hs \<noteq> []"
  shows "((\<exists>h\<in>set hs. qualifies (pageYOffset + scrollMt + 1) h) \<longrightarrow>
            (\<exists>h\<in>set hs. (ch_level h = 2 \<or> ch_level h = 3)
               \<and> ch_top h \<le> pageYOffset + scrollMt + 1
               \<and> onScroll hs pageYOffset scrollMt = Inr (ch_id h))
            \<and> onScroll (filter (\<lambda>h. ch_level h \<noteq> 1) hs) pageYOffset scrollMt =
                onScroll hs pageYOffset scrollMt)
     \<and> ((\<forall>h\<in>set hs. \<not> qualifies (pageYOffset + scrollMt + 1) h) \<longrightarrow>
            onScroll hs pageYOffset scrollMt = Inr (ch_id (hd (sort_key ch_top hs))))"
proof (intro conjI impI)
  assume "\<exists>h\<in>set hs. qualifies (pageYOffset + scrollMt + 1) h"
  then obtain h where h: "h \<in> set hs" "qualifies (pageYOffset + scrollMt + 1) h"
    by blast
  from onScroll_qualifying [OF h]
  show "\<exists>h\<in>set hs. (ch_level h = 2 \<or> ch_level h = 3)
         \<and> ch_top h \<le> pageYOffset + scrollMt + 1
         \<and> onScroll hs pageYOffset scrollMt = Inr (ch_id h)"
    unfolding qualifies_def by blast
  from h show "onScroll (filter (\<lambda>h. ch_level h \<noteq> 1) hs) pageYOffset scrollMt =
      onScroll hs pageYOffset scrollMt"
    by (rule onScroll_without_level1)
next
  assume "\<forall>h\<in>set hs. \<not> qualifies (pageYOffset + scrollMt + 1) h"
  with assms show "onScroll hs pageYOffset scrollMt = Inr (ch_id (hd (sort_key ch_top hs)))"
    by (rule onScroll_fallback)
qed

theorem onScroll_level_selection_witness:
  "example_with_title \<noteq> []
   \<and> onScroll example_with_title 599 0 = Inr ''intro''
   \<and> onScroll (filter (\<lambda>h. ch_level h \<noteq> 1) example_with_title) 599 0 = Inr ''intro''"
proof -
  have ne: "example_with_title \<noteq> []"
    by (simp add: example_with_title_def)
  have q: "\<exists>h\<in>set example_with_title. qualifies (599 + 0 + 1) h"
    by (simp add: example_with_title_def qualifies_def)
  have e: "onScroll (filter (\<lambda>h. ch_level h \<noteq> 1) example_with_title) 599 0 = Inr ''intro''"
    by (simp add: example_with_title_def onScroll_def onScroll_step_def)
  have "onScroll (filter (\<lambda>h. ch_level h \<noteq> 1) example_with_title) 599 0 =
      onScroll example_with_title 599 0"
    using onScroll_level_selection [OF ne, of 599 0] q by blast
  with ne e show ?thesis by simp
qed

text \<open>
  The claim as written fails: with the threshold at 1, no heading of level 2 or 3
  qualifies, and the active section is the id of the level-1 heading that comes first;
  without that heading the active section is another one.
\<close>

theorem onScroll_selects_level1:
  "ch_level \<lparr>ch_id = ''title'', ch_top = 0, ch_level = 1\<rparr> = 1
   \<and> onScroll [\<lparr>ch_id = ''title'', ch_top = 0, ch_level = 1\<rparr>,
                \<lparr>ch_id = ''intro'', ch_top = 500, ch_level = 2\<rparr>] 0 0 = Inr ''title''
   \<and> onScroll [\<lparr>ch_id = ''intro'', ch_top = 500, ch_level = 2\<rparr>] 0 0 = Inr ''intro''"
  by (simp add: onScroll_def onScroll_step_def)

text \<open>
  Claim C3, as the code has it. Over a non-empty set of registered headings the
  recomputation sorts the headings by ascending top (a stable sort, so the sorted array
  is ordered and holds the same headings) and sets the active section to the id of the
  last heading of level 2 or 3 whose top is at most
  \<open>pageYOffset + scrollMt + 1\<close>, when there is one, and to the id of the first
  heading in sorted order otherwise.
\<close>

theorem onScroll_last_qualifying:
  assumes "hs \<noteq> []"
  shows "sorted (map ch_top (sort_key ch_top hs))
     \<and> mset (sort_key ch_top hs) = mset hs
     \<and> onScroll hs pageYOffset scrollMt =
         Inr (ch_id (if \<exists>h\<in>set hs. qualifies (pageYOffset + scrollMt + 1) h
                     then last (filter (qualifies (pageYOffset + scrollMt + 1))
                            (sort_key ch_top hs))
                     else hd (sort_key ch_top hs)))"
proof -
  have "(\<exists>h\<in>set hs. qualifies (pageYOffset + scrollMt + 1) h) \<longleftrightarrow>
      filter (qualifies (pageYOffset + scrollMt + 1)) (sort_key ch_top hs) \<noteq> []"
    by (auto simp: filter_empty_conv)
  then show ?thesis
    using onScroll_nonempty [OF assms, of pageYOffset scrollMt]
    by (simp del: set_sort)
qed

theorem onScroll_last_qualifying_witness:
  "example_headings \<noteq> [] \<and> onScroll example_headings 599 0 = Inr ''setup''"
proof -
  have ne: "example_headings \<noteq> []"
    by (simp add: example_headings_def)
  show ?thesis
    using ne onScroll_last_qualifying [OF ne, of 599 0]
    by (simp add: example_headings_def qualifies_def)
qed

text \<open>
  The claim as written fails where no heading qualifies: the only registered heading
  lies below the threshold and still becomes the active section.
\<close>

theorem onScroll_fallback_below_threshold:
  "\<not> ch_top \<lparr>ch_id = ''usage'', ch_top = 1000, ch_level = 3\<rparr> \<le> 599 + 0 + 1
   \<and> onScroll [\<lparr>ch_id = ''usage'', ch_top = 1000, ch_level = 3\<rparr>] 599 0 = Inr ''usage''"
  by (simp add: onScroll_def onScroll_step_def)

text \<open>
  Claim C6. After \<^verbatim>\<open>unregisterHeading(id)\<close>, \<^verbatim>\<open>onScroll\<close> over the remaining
  headings never yields that id, whatever the scroll position and whatever the top of
  the removed heading was. If the current section still is that id after a
  recomputation, the recomputation was skipped and the value is the one held before.
\<close>

theorem unregisterHeading_not_selected:
  "onScroll (headings (unregisterHeading id' st)) pageYOffset scrollMt \<noteq> Inr id'
   \<and> (recompute toc pageYOffset scrollMt (unregisterHeading id' st) = Inr st'
        \<and> currentSection st' = Str id'
      \<longrightarrow> currentSection st = Str id' \<and> st' = unregisterHeading id' st)"
proof -
  have never: "onScroll (headings (unregisterHeading id' st)) pageYOffset scrollMt \<noteq> Inr id'"
  proof
    assume "onScroll (headings (unregisterHeading id' st)) pageYOffset scrollMt = Inr id'"
    then have "id' \<in> ch_id ` set (headings (unregisterHeading id' st))"
      by (rule onScroll_id_registered)
    then show False by (auto simp: unregisterHeading_def)
  qed
  have "currentSection st = Str id' \<and> st' = unregisterHeading id' st"
    if r: "recompute toc pageYOffset scrollMt (unregisterHeading id' st) = Inr st'"
      and c: "currentSection st' = Str id'"
  proof (cases "length toc = 0 \<or> length (headings (unregisterHeading id' st)) = 0")
    case True
    then have "st' = unregisterHeading id' st"
      using r by (auto simp: recompute_def)
    then show ?thesis using c by (simp add: unregisterHeading_def)
  next
    case False
    then obtain current where
      "onScroll (headings (unregisterHeading id' st)) pageYOffset scrollMt = Inr current"
      and "st' = (unregisterHeading id' st)\<lparr>currentSection := Str current\<rparr>"
      using r by (auto simp: recompute_def split: sum.splits)
    then show ?thesis using never c by simp
  qed
  with never show ?thesis by blast
qed

theorem unregisterHeading_not_selected_witness:
  "onScroll example_headings 599 0 = Inr ''setup''
   \<and> onScroll (headings (unregisterHeading ''setup''
          \<lparr>currentSection = Str ''setup'', headings = example_headings\<rparr>)) 599 0 = Inr ''intro''
   \<and> onScroll (headings (unregisterHeading ''setup''
          \<lparr>currentSection = Str ''setup'', headings = example_headings\<rparr>)) 599 0 \<noteq> Inr ''setup''"
proof -
  have "onScroll (headings (unregisterHeading ''setup''
          \<lparr>currentSection = Str ''setup'', headings = example_headings\<rparr>)) 599 0 \<noteq> Inr ''setup''"
    using unregisterHeading_not_selected
      [of "''setup''" "\<lparr>currentSection = Str ''setup'', headings = example_headings\<rparr>" 599 0]
    by blast
  moreover have "onScroll example_headings 599 0 = Inr ''setup''"
    by (simp add: example_headings_def onScroll_def onScroll_step_def)
  moreover have "onScroll (headings (unregisterHeading ''setup''
          \<lparr>currentSection = Str ''setup'', headings = example_headings\<rparr>)) 599 0 = Inr ''intro''"
    by (simp add: example_headings_def unregisterHeading_def onScroll_def onScroll_step_def)
  ultimately show ?thesis by blast
qed

text \<open>
  Claim C7. For a non-empty table of contents the tracker starts with the slug of the
  first top-level entry as current section and with no registered heading. In any state
  without registered headings the recomputation is skipped and returns the state as it
  is; in particular the initial state stays as it is, also under
  \<^verbatim>\<open>unregisterHeading\<close>, which keeps the set empty.
\<close>

theorem recompute_skipped_without_headings:
  assumes "toc \<noteq> []" and "headings st = []"
  shows "recompute toc pageYOffset scrollMt st = Inr st
     \<and> currentSection (useTableOfContents toc) = slug (hd toc)
     \<and> headings (useTableOfContents toc) = []
     \<and> recompute toc pageYOffset scrollMt (useTableOfContents toc) = Inr (useTableOfContents toc)
     \<and> unregisterHeading id' (useTableOfContents toc) = useTableOfContents toc"
  using assms
  by (cases toc)
    (simp_all add: useTableOfContents_def array_get_def recompute_def unregisterHeading_def)

theorem recompute_skipped_without_headings_witness:
  "example_toc \<noteq> [] \<and> headings (useTableOfContents example_toc) = []
   \<and> recompute example_toc 599 0 (useTableOfContents example_toc) =
       Inr \<lparr>currentSection = Str ''intro'', headings = []\<rparr>"
proof -
  have ne: "example_toc \<noteq> []"
    by (simp add: example_toc_def)
  have h: "headings (useTableOfContents example_toc) = []"
    by (simp add: useTableOfContents_def)
  have u: "useTableOfContents example_toc = \<lparr>currentSection = Str ''intro'', headings = []\<rparr>"
    by (simp add: useTableOfContents_def example_toc_def array_get_def)
  have "recompute example_toc 599 0 (useTableOfContents example_toc) =
      Inr (useTableOfContents example_toc)"
    using recompute_skipped_without_headings [OF ne h, of 599 0] by blast
  then show ?thesis
    unfolding u using ne by simp
qed

text \<open>
  Claim C8. \<^verbatim>\<open>registerHeading(id, top, level)\<close> is an idempotent upsert: in the
  resulting list exactly one entry has that id, and it carries the new top and level;
  the entries with other ids are the ones of the old list, in their order; a second
  identical call changes nothing. The current section is not touched.
\<close>

theorem registerHeading_upsert:
  "filter (\<lambda>h. ch_id h = id') (headings (registerHeading id' top' level' st))
      = [\<lparr>ch_id = id', ch_top = top', ch_level = level'\<rparr>]
   \<and> filter (\<lambda>h. ch_id h \<noteq> id') (headings (registerHeading id' top' level' st))
      = filter (\<lambda>h. ch_id h \<noteq> id') (headings st)
   \<and> currentSection (registerHeading id' top' level' st) = currentSection st
   \<and> registerHeading id' top' level' (registerHeading id' top' level' st)
      = registerHeading id' top' level' st"
  by (auto simp: registerHeading_def filter_empty_conv intro: filter_cong)

theorem registerHeading_upsert_witness:
  "headings (registerHeading ''setup'' 700 3
      \<lparr>currentSection = Str ''intro'', headings = example_headings\<rparr>) =
     [\<lparr>ch_id = ''intro'', ch_top = 0, ch_level = 2\<rparr>,
      \<lparr>ch_id = ''usage'', ch_top = 1000, ch_level = 3\<rparr>,
      \<lparr>ch_id = ''setup'', ch_top = 700, ch_level = 3\<rparr>]
   \<and> registerHeading ''setup'' 700 3 (registerHeading ''setup'' 700 3
        \<lparr>currentSection = Str ''intro'', headings = example_headings\<rparr>) =
      registerHeading ''setup'' 700 3
        \<lparr>currentSection = Str ''intro'', headings = example_headings\<rparr>"
proof -
  have "headings (registerHeading ''setup'' 700 3
      \<lparr>currentSection = Str ''intro'', headings = example_headings\<rparr>) =
     [\<lparr>ch_id = ''intro'', ch_top = 0, ch_level = 2\<rparr>,
      \<lparr>ch_id = ''usage'', ch_top = 1000, ch_level = 3\<rparr>,
      \<lparr>ch_id = ''setup'', ch_top = 700, ch_level = 3\<rparr>]"
    by (simp add: registerHeading_def example_headings_def)
  then show ?thesis
    using registerHeading_upsert
      [of "''setup''" 700 3 "\<lparr>currentSection = Str ''intro'', headings = example_headings\<rparr>"]
    by blast
qed

end
